theory Spec2Isabelle
  imports Complex_Main "HOL-Library.Sublist"
begin

section \<open>SIS epidemic simulation on a contact network\<close>

text \<open>
  The repository holds two programs, \<^verbatim>\<open>main.py\<close> and \<^verbatim>\<open>main_task1.py\<close>, with the same
  four functions: \<^verbatim>\<open>set_initial_infected\<close>, \<^verbatim>\<open>update_status\<close>, \<^verbatim>\<open>simulate_spread\<close> and
  \<^verbatim>\<open>check_threshold\<close>. \<^verbatim>\<open>set_initial_infected\<close> is the same text in both files; the other
  three differ, and are embedded once per file, with the suffix \<open>_main\<close> or \<open>_task1\<close>.
\<close>

subsection \<open>Data model\<close>

text \<open>
  A networkx graph, as far as the programs read it: \<^verbatim>\<open>G.nodes()\<close> in its iteration order,
  \<^verbatim>\<open>G.neighbors(node)\<close> in its iteration order, and \<^verbatim>\<open>len(G)\<close>, the number of nodes.
\<close>

record 'a graph =
  nodes :: "'a list"
  neighbors :: "'a \<Rightarrow> 'a list"

definition len_graph :: "'a graph \<Rightarrow> nat" where
  "len_graph G = length (nodes G)"

text \<open>
  The global random generator: \<open>rnd i\<close> is the value of the \<open>i\<close>-th call of
  \<^verbatim>\<open>random.random()\<close>, and the state that is threaded through every function is the number
  of calls made so far. Floats are modelled as reals.
\<close>

type_synonym rng = "nat \<Rightarrow> real"

text \<open>\<^verbatim>\<open>random.random()\<close> returns a value of the half-open interval from 0 to 1.\<close>

definition unit_interval :: "rng \<Rightarrow> bool" where
  "unit_interval rnd = (\<forall>i. 0 \<le> rnd i \<and> rnd i < 1)"

datatype error =
    ZeroDivisionError
  | ValueError
  | PowerIterationFailedConvergence
  | NetworkXPointlessConcept

subsection \<open>\<^verbatim>\<open>set_initial_infected\<close> (both files)\<close>

fun initial_loop :: "'a list \<Rightarrow> real \<Rightarrow> rng \<Rightarrow> 'a list \<Rightarrow> nat \<Rightarrow> 'a list \<times> nat" where
  "initial_loop [] p0 rnd infected_nodes s = (infected_nodes, s)"
| "initial_loop (node # rest) p0 rnd infected_nodes s =
     (if rnd s < p0
      then initial_loop rest p0 rnd (infected_nodes @ [node]) (Suc s)
      else initial_loop rest p0 rnd infected_nodes (Suc s))"

definition set_initial_infected :: "'a graph \<Rightarrow> real \<Rightarrow> rng \<Rightarrow> nat \<Rightarrow> 'a list \<times> nat" where
  "set_initial_infected G p0 rnd s = initial_loop (nodes G) p0 rnd [] s"

subsection \<open>\<^verbatim>\<open>update_status\<close> of \<^verbatim>\<open>main.py\<close>\<close>

text \<open>
  The inner loop over \<^verbatim>\<open>G.neighbors(node)\<close> of an infected node that has not recovered:
  \<^verbatim>\<open>neighbor not in infected_nodes and random.random() < beta\<close> draws only for a susceptible
  neighbour, and appends the neighbour.
\<close>

fun neighbors_loop_main ::
  "'a list \<Rightarrow> 'a list \<Rightarrow> real \<Rightarrow> rng \<Rightarrow> 'a list \<Rightarrow> nat \<Rightarrow> 'a list \<times> nat" where
  "neighbors_loop_main [] infected_nodes beta rnd new_infected_nodes s = (new_infected_nodes, s)"
| "neighbors_loop_main (neighbor # rest) infected_nodes beta rnd new_infected_nodes s =
     (if neighbor \<notin> set infected_nodes
      then (if rnd s < beta
            then neighbors_loop_main rest infected_nodes beta rnd
                   (new_infected_nodes @ [neighbor]) (Suc s)
            else neighbors_loop_main rest infected_nodes beta rnd new_infected_nodes (Suc s))
      else neighbors_loop_main rest infected_nodes beta rnd new_infected_nodes s)"

text \<open>
  The body of the loop over \<^verbatim>\<open>G.nodes()\<close>. An infected node draws for recovery and, on
  success, goes to the next node (\<^verbatim>\<open>continue\<close>); otherwise it runs the inner loop. A
  susceptible node draws once and is appended when the draw is below \<open>beta\<close>.
\<close>

definition node_body_main ::
  "'a graph \<Rightarrow> 'a \<Rightarrow> 'a list \<Rightarrow> real \<Rightarrow> real \<Rightarrow> rng \<Rightarrow> 'a list \<Rightarrow> nat \<Rightarrow> 'a list \<times> nat" where
  "node_body_main G node infected_nodes beta gamma rnd new_infected_nodes s =
     (if node \<in> set infected_nodes
      then (if rnd s < gamma then (new_infected_nodes, Suc s)
            else neighbors_loop_main (neighbors G node) infected_nodes beta rnd
                   new_infected_nodes (Suc s))
      else if rnd s < beta then (new_infected_nodes @ [node], Suc s)
      else (new_infected_nodes, Suc s))"

fun nodes_loop_main ::
  "'a graph \<Rightarrow> 'a list \<Rightarrow> 'a list \<Rightarrow> real \<Rightarrow> real \<Rightarrow> rng \<Rightarrow> 'a list \<Rightarrow> nat \<Rightarrow> 'a list \<times> nat" where
  "nodes_loop_main G [] infected_nodes beta gamma rnd new_infected_nodes s =
     (new_infected_nodes, s)"
| "nodes_loop_main G (node # rest) infected_nodes beta gamma rnd new_infected_nodes s =
     (case node_body_main G node infected_nodes beta gamma rnd new_infected_nodes s of
        (new', s') \<Rightarrow> nodes_loop_main G rest infected_nodes beta gamma rnd new' s')"

text \<open>
  The result is the new list, the fraction \<^verbatim>\<open>len(new_infected_nodes) / len(G)\<close>, and the
  generator state. The division raises \<^verbatim>\<open>ZeroDivisionError\<close> on a graph without nodes.
\<close>

definition update_status_main ::
  "'a graph \<Rightarrow> 'a list \<Rightarrow> real \<Rightarrow> real \<Rightarrow> rng \<Rightarrow> nat \<Rightarrow> error + (('a list \<times> real) \<times> nat)" where
  "update_status_main G infected_nodes beta gamma rnd s =
     (case nodes_loop_main G (nodes G) infected_nodes beta gamma rnd [] s of
        (new_infected_nodes, s') \<Rightarrow>
          if len_graph G = 0 then Inl ZeroDivisionError
          else Inr ((new_infected_nodes,
                     real (length new_infected_nodes) / real (len_graph G)), s'))"

subsection \<open>\<^verbatim>\<open>update_status\<close> of \<^verbatim>\<open>main_task1.py\<close>\<close>

text \<open>
  The inner loop over the neighbours of a susceptible node:
  \<^verbatim>\<open>neighbor in infected_nodes and random.random() < beta\<close> draws only for an infected
  neighbour; the first success appends the node and leaves the loop (\<^verbatim>\<open>break\<close>). The
  result says whether the node was appended.
\<close>

fun neighbors_loop_task1 :: "'a list \<Rightarrow> 'a list \<Rightarrow> real \<Rightarrow> rng \<Rightarrow> nat \<Rightarrow> bool \<times> nat" where
  "neighbors_loop_task1 [] infected_nodes beta rnd s = (False, s)"
| "neighbors_loop_task1 (neighbor # rest) infected_nodes beta rnd s =
     (if neighbor \<in> set infected_nodes
      then (if rnd s < beta then (True, Suc s)
            else neighbors_loop_task1 rest infected_nodes beta rnd (Suc s))
      else neighbors_loop_task1 rest infected_nodes beta rnd s)"

text \<open>
  The body of the loop over \<^verbatim>\<open>G.nodes()\<close>. An infected node is appended when its draw is
  above \<open>gamma\<close>; the \<^verbatim>\<open>elif node not in infected_nodes\<close> branch runs the inner loop.
\<close>

definition node_body_task1 ::
  "'a graph \<Rightarrow> 'a \<Rightarrow> 'a list \<Rightarrow> real \<Rightarrow> real \<Rightarrow> rng \<Rightarrow> 'a list \<Rightarrow> nat \<Rightarrow> 'a list \<times> nat" where
  "node_body_task1 G node infected_nodes beta gamma rnd new_infected_nodes s =
     (if node \<in> set infected_nodes
      then (if rnd s > gamma then (new_infected_nodes @ [node], Suc s)
            else (new_infected_nodes, Suc s))
      else if node \<notin> set infected_nodes
      then (case neighbors_loop_task1 (neighbors G node) infected_nodes beta rnd s of
              (hit, s') \<Rightarrow> (if hit then new_infected_nodes @ [node] else new_infected_nodes, s'))
      else (new_infected_nodes, s))"

fun nodes_loop_task1 ::
  "'a graph \<Rightarrow> 'a list \<Rightarrow> 'a list \<Rightarrow> real \<Rightarrow> real \<Rightarrow> rng \<Rightarrow> 'a list \<Rightarrow> nat \<Rightarrow> 'a list \<times> nat" where
  "nodes_loop_task1 G [] infected_nodes beta gamma rnd new_infected_nodes s =
     (new_infected_nodes, s)"
| "nodes_loop_task1 G (node # rest) infected_nodes beta gamma rnd new_infected_nodes s =
     (case node_body_task1 G node infected_nodes beta gamma rnd new_infected_nodes s of
        (new', s') \<Rightarrow> nodes_loop_task1 G rest infected_nodes beta gamma rnd new' s')"

definition update_status_task1 ::
  "'a graph \<Rightarrow> 'a list \<Rightarrow> real \<Rightarrow> real \<Rightarrow> rng \<Rightarrow> nat \<Rightarrow> error + (('a list \<times> real) \<times> nat)" where
  "update_status_task1 G infected_nodes beta gamma rnd s =
     (case nodes_loop_task1 G (nodes G) infected_nodes beta gamma rnd [] s of
        (new_infected_nodes, s') \<Rightarrow>
          if len_graph G = 0 then Inl ZeroDivisionError
          else Inr ((new_infected_nodes,
                     real (length new_infected_nodes) / real (len_graph G)), s'))"

subsection \<open>\<^verbatim>\<open>simulate_spread\<close>\<close>

text \<open>
  The loop \<^verbatim>\<open>for t in range(T)\<close> is the same in both files, over the file's own
  \<^verbatim>\<open>update_status\<close>, here the parameter \<open>upd\<close>. It returns the trajectory, the last
  infection state and the generator state.
\<close>

fun spread_loop ::
  "('a graph \<Rightarrow> 'a list \<Rightarrow> real \<Rightarrow> real \<Rightarrow> rng \<Rightarrow> nat \<Rightarrow> error + (('a list \<times> real) \<times> nat)) \<Rightarrow>
   'a graph \<Rightarrow> 'a list \<Rightarrow> real \<Rightarrow> real \<Rightarrow> nat \<Rightarrow> rng \<Rightarrow> real list \<Rightarrow> nat \<Rightarrow>
   error + ((real list \<times> 'a list) \<times> nat)" where
  "spread_loop upd G infected_nodes beta gamma 0 rnd proportion_infected s =
     Inr ((proportion_infected, infected_nodes), s)"
| "spread_loop upd G infected_nodes beta gamma (Suc n) rnd proportion_infected s =
     (case upd G infected_nodes beta gamma rnd s of
        Inl e \<Rightarrow> Inl e
      | Inr ((infected_nodes', p), s') \<Rightarrow>
          spread_loop upd G infected_nodes' beta gamma n rnd (proportion_infected @ [p]) s')"

text \<open>
  \<^verbatim>\<open>max(eigen_centrality.values())\<close> and \<^verbatim>\<open>max(eigen_centrality, key=eigen_centrality.get)\<close>
  over the dictionary in its iteration order: the first maximal entry wins, and an empty
  dictionary raises \<^verbatim>\<open>ValueError\<close>.
\<close>

fun max_entry :: "('a \<times> real) list \<Rightarrow> error + ('a \<times> real)" where
  "max_entry [] = Inl ValueError"
| "max_entry (kv # rest) = Inr (foldl (\<lambda>best kv'. if snd kv' > snd best then kv' else best) kv rest)"

text \<open>
  \<^verbatim>\<open>nx.eigenvector_centrality\<close> is a library function and is a parameter \<open>ec\<close> here: it takes the
  graph and the iteration cap and returns the centrality dictionary or raises. \<open>T\<close> is a
  Python integer: \<^verbatim>\<open>range(T)\<close> is empty when \<open>T\<close> is not positive.
\<close>

definition simulate_spread_main ::
  "('a graph \<Rightarrow> nat \<Rightarrow> error + ('a \<times> real) list) \<Rightarrow> 'a graph \<Rightarrow> string \<Rightarrow> 'a list \<Rightarrow>
   real \<Rightarrow> real \<Rightarrow> int \<Rightarrow> rng \<Rightarrow> nat \<Rightarrow> error + ((real list \<times> real \<times> 'a) \<times> nat)" where
  "simulate_spread_main ec G G_type infected_nodes beta gamma T rnd s =
     (case spread_loop update_status_main G infected_nodes beta gamma (nat T) rnd [] s of
        Inl e \<Rightarrow> Inl e
      | Inr ((proportion_infected, _), s') \<Rightarrow>
          (case ec G (if G_type = ''lattice'' \<or> G_type = ''star'' then 600 else 100) of
             Inl e \<Rightarrow> Inl e
           | Inr eigen_centrality \<Rightarrow>
               (case max_entry eigen_centrality of
                  Inl e \<Rightarrow> Inl e
                | Inr (leading_node, max_eigen) \<Rightarrow>
                    Inr ((proportion_infected, max_eigen, leading_node), s'))))"

definition simulate_spread_task1 ::
  "('a graph \<Rightarrow> nat \<Rightarrow> error + ('a \<times> real) list) \<Rightarrow> 'a graph \<Rightarrow> 'a list \<Rightarrow>
   real \<Rightarrow> real \<Rightarrow> int \<Rightarrow> rng \<Rightarrow> nat \<Rightarrow> error + ((real list \<times> real \<times> 'a) \<times> nat)" where
  "simulate_spread_task1 ec G infected_nodes beta gamma T rnd s =
     (case spread_loop update_status_task1 G infected_nodes beta gamma (nat T) rnd [] s of
        Inl e \<Rightarrow> Inl e
      | Inr ((proportion_infected, _), s') \<Rightarrow>
          (case ec G 600 of
             Inl e \<Rightarrow> Inl e
           | Inr eigen_centrality \<Rightarrow>
               (case max_entry eigen_centrality of
                  Inl e \<Rightarrow> Inl e
                | Inr (leading_node, max_eigen) \<Rightarrow>
                    Inr ((proportion_infected, max_eigen, leading_node), s'))))"

subsection \<open>\<^verbatim>\<open>check_threshold\<close>\<close>

text \<open>
  Both functions return \<^verbatim>\<open>None\<close> and print their verdict; the model returns the verdict
  line. Each division raises \<^verbatim>\<open>ZeroDivisionError\<close> on a zero divisor.
\<close>

definition check_threshold_main :: "real \<Rightarrow> real \<Rightarrow> real \<Rightarrow> error + string" where
  "check_threshold_main beta gamma max_eigen =
     (if gamma = 0 then Inl ZeroDivisionError
      else let beta_over_gamma = beta / gamma in
        if max_eigen = 0 then Inl ZeroDivisionError
        else let threshold = 1 / max_eigen in
          if beta_over_gamma > threshold then Inr ''Epidemic occurs''
          else Inr ''No epidemic occurs'')"

text \<open>\<^verbatim>\<open>main_task1.py\<close> compares with \<^verbatim>\<open>1 / threshold\<close>.\<close>

definition check_threshold_task1 :: "real \<Rightarrow> real \<Rightarrow> real \<Rightarrow> error + string" where
  "check_threshold_task1 beta gamma max_eigen =
     (if gamma = 0 then Inl ZeroDivisionError
      else let beta_over_gamma = beta / gamma in
        if max_eigen = 0 then Inl ZeroDivisionError
        else let threshold = 1 / max_eigen in
          if threshold = 0 then Inl ZeroDivisionError
          else if beta_over_gamma > 1 / threshold then Inr ''Epidemic occurs''
          else Inr ''No epidemic occurs'')"

subsection \<open>Positions in the random stream\<close>

text \<open>
  The generator state at the moment the loop over \<^verbatim>\<open>G.nodes()\<close> reaches position \<open>k\<close>: the
  state after the loop has run over the first \<open>k\<close> nodes. The first draw made for the node
  at position \<open>k\<close> is the draw with this index.
\<close>

definition draws_before_task1 ::
  "'a graph \<Rightarrow> 'a list \<Rightarrow> real \<Rightarrow> real \<Rightarrow> rng \<Rightarrow> nat \<Rightarrow> nat \<Rightarrow> nat" where
  "draws_before_task1 G infected_nodes beta gamma rnd s k =
     snd (nodes_loop_task1 G (take k (nodes G)) infected_nodes beta gamma rnd [] s)"

definition draws_before_main ::
  "'a graph \<Rightarrow> 'a list \<Rightarrow> real \<Rightarrow> real \<Rightarrow> rng \<Rightarrow> nat \<Rightarrow> nat \<Rightarrow> nat" where
  "draws_before_main G infected_nodes beta gamma rnd s k =
     snd (nodes_loop_main G (take k (nodes G)) infected_nodes beta gamma rnd [] s)"

subsection \<open>Concrete inputs\<close>

text \<open>
  A graph with the single node 0 and no edge, the complete graph on the nodes 0, 1, 2, a
  generator that always returns the same value, and a generator whose first value differs
  from all later ones.
\<close>

definition lone_node :: "nat graph" where
  "lone_node = \<lparr>nodes = [0], neighbors = (\<lambda>v. [])\<rparr>"

definition triangle :: "nat graph" where
  "triangle = \<lparr>nodes = [0, 1, 2],
               neighbors = (\<lambda>v. if v = 0 then [1, 2] else if v = 1 then [0, 2] else [0, 1])\<rparr>"

definition constant_rng :: "real \<Rightarrow> rng" where
  "constant_rng c i = c"

definition first_then :: "real \<Rightarrow> real \<Rightarrow> rng" where
  "first_then a b i = (if i = 0 then a else b)"

section \<open>The loops of \<^verbatim>\<open>main_task1.py\<close>\<close>

text \<open>
  The inner loop reports a hit exactly when one of the draws made for the infected
  neighbours is below \<open>beta\<close>: the infected neighbours, in iteration order, own the draws
  \<open>s\<close>, \<open>s + 1\<close>, ..., and the loop stops at the first success.
\<close>

lemma neighbors_loop_task1_hit:
  "fst (neighbors_loop_task1 nbrs infected beta rnd s) \<longleftrightarrow>
     (\<exists>i < length (filter (\<lambda>n. n \<in> set infected) nbrs). rnd (s + i) < beta)"
proof (induction nbrs arbitrary: s)
  case Nil
  then show ?case by simp
next
  case (Cons nb rest)
  show ?case
  proof (cases "nb \<in> set infected")
    case False
    then show ?thesis using Cons.IH [of s] by simp
  next
    case True
    show ?thesis
    proof (cases "rnd s < beta")
      case True
      with \<open>nb \<in> set infected\<close> show ?thesis by auto
    next
      case False
      have "(\<exists>i < Suc (length (filter (\<lambda>n. n \<in> set infected) rest)). rnd (s + i) < beta) \<longleftrightarrow>
            (\<exists>i < length (filter (\<lambda>n. n \<in> set infected) rest). rnd (Suc s + i) < beta)"
        using False by (auto simp: less_Suc_eq_0_disj)
      with False \<open>nb \<in> set infected\<close> show ?thesis using Cons.IH [of "Suc s"] by simp
    qed
  qed
qed

text \<open>The list built so far is only ever extended.\<close>

lemma node_body_task1_acc:
  "node_body_task1 G x infected beta gamma rnd acc s =
     (acc @ fst (node_body_task1 G x infected beta gamma rnd [] s),
      snd (node_body_task1 G x infected beta gamma rnd [] s))"
  by (simp add: node_body_task1_def split: prod.splits)

lemma nodes_loop_task1_acc:
  "nodes_loop_task1 G xs infected beta gamma rnd acc s =
     (acc @ fst (nodes_loop_task1 G xs infected beta gamma rnd [] s),
      snd (nodes_loop_task1 G xs infected beta gamma rnd [] s))"
proof (induction xs arbitrary: acc s)
  case Nil
  then show ?case by simp
next
  case (Cons x xs)
  obtain b s1 where b: "node_body_task1 G x infected beta gamma rnd [] s = (b, s1)"
    by (cases "node_body_task1 G x infected beta gamma rnd [] s")
  have acc: "node_body_task1 G x infected beta gamma rnd acc s = (acc @ b, s1)"
    using node_body_task1_acc [of G x infected beta gamma rnd acc s] b by simp
  show ?case
    using Cons.IH [of "acc @ b" s1] Cons.IH [of b s1] by (simp add: b acc)
qed

lemma nodes_loop_task1_append:
  "nodes_loop_task1 G (xs @ ys) infected beta gamma rnd acc s =
     (case nodes_loop_task1 G xs infected beta gamma rnd acc s of
        (acc', s') \<Rightarrow> nodes_loop_task1 G ys infected beta gamma rnd acc' s')"
  by (induction xs arbitrary: acc s) (simp_all split: prod.splits)

lemma nodes_loop_task1_snoc:
  "fst (nodes_loop_task1 G (xs @ [x]) infected beta gamma rnd [] s) =
     fst (nodes_loop_task1 G xs infected beta gamma rnd [] s) @
     fst (node_body_task1 G x infected beta gamma rnd []
            (snd (nodes_loop_task1 G xs infected beta gamma rnd [] s)))"
proof -
  obtain a s1 where a: "nodes_loop_task1 G xs infected beta gamma rnd [] s = (a, s1)"
    by (cases "nodes_loop_task1 G xs infected beta gamma rnd [] s")
  show ?thesis
    using node_body_task1_acc [of G x infected beta gamma rnd a s1]
    by (simp add: nodes_loop_task1_append a split: prod.splits)
qed

text \<open>Every iteration appends its own node or nothing, so the result is a subsequence.\<close>

lemma node_body_task1_subseq:
  "subseq (fst (node_body_task1 G x infected beta gamma rnd [] s)) [x]"
  by (simp add: node_body_task1_def split: prod.splits)

lemma nodes_loop_task1_subseq:
  "subseq (fst (nodes_loop_task1 G xs infected beta gamma rnd [] s)) xs"
proof (induction xs arbitrary: s)
  case Nil
  then show ?case by simp
next
  case (Cons x xs)
  obtain b s1 where b: "node_body_task1 G x infected beta gamma rnd [] s = (b, s1)"
    by (cases "node_body_task1 G x infected beta gamma rnd [] s")
  have "subseq b [x]" using node_body_task1_subseq [of G x infected beta gamma rnd s] b by simp
  moreover have "subseq (fst (nodes_loop_task1 G xs infected beta gamma rnd [] s1)) xs"
    by (rule Cons.IH)
  ultimately have "subseq (b @ fst (nodes_loop_task1 G xs infected beta gamma rnd [] s1)) ([x] @ xs)"
    by (rule list_emb_append_mono)
  then show ?case
    using nodes_loop_task1_acc [of G xs infected beta gamma rnd b s1] by (simp add: b)
qed

lemma node_body_task1_member:
  "y \<in> set (fst (node_body_task1 G x infected beta gamma rnd [] s)) \<longleftrightarrow>
     y = x \<and> (if x \<in> set infected then gamma < rnd s
               else \<exists>i < length (filter (\<lambda>n. n \<in> set infected) (neighbors G x)). rnd (s + i) < beta)"
proof (cases "x \<in> set infected")
  case True
  then show ?thesis by (auto simp: node_body_task1_def)
next
  case False
  obtain hit s' where h: "neighbors_loop_task1 (neighbors G x) infected beta rnd s = (hit, s')"
    by (cases "neighbors_loop_task1 (neighbors G x) infected beta rnd s")
  have hit: "hit \<longleftrightarrow> (\<exists>i < length (filter (\<lambda>n. n \<in> set infected) (neighbors G x)). rnd (s + i) < beta)"
    using neighbors_loop_task1_hit [of "neighbors G x" infected beta rnd s] h by simp
  have "y \<in> set (fst (node_body_task1 G x infected beta gamma rnd [] s)) \<longleftrightarrow> y = x \<and> hit"
    using False h by (cases hit) (simp_all add: node_body_task1_def)
  then show ?thesis using False hit by simp
qed

lemma nodes_loop_task1_set:
  "set (fst (nodes_loop_task1 G xs infected beta gamma rnd [] s)) =
     (\<Union>j<length xs. set (fst (node_body_task1 G (xs ! j) infected beta gamma rnd []
                                 (snd (nodes_loop_task1 G (take j xs) infected beta gamma rnd [] s)))))"
proof (induction xs rule: rev_induct)
  case Nil
  then show ?case by simp
next
  case (snoc x xs)
  have "(\<Union>j<length xs. set (fst (node_body_task1 G ((xs @ [x]) ! j) infected beta gamma rnd []
            (snd (nodes_loop_task1 G (take j (xs @ [x])) infected beta gamma rnd [] s))))) =
        (\<Union>j<length xs. set (fst (node_body_task1 G (xs ! j) infected beta gamma rnd []
            (snd (nodes_loop_task1 G (take j xs) infected beta gamma rnd [] s)))))"
    by (auto simp: nth_append)
  then show ?case
    using snoc.IH by (simp add: nodes_loop_task1_snoc lessThan_Suc Un_commute)
qed

lemma nodes_loop_task1_member:
  assumes "distinct xs" and "k < length xs"
  shows "xs ! k \<in> set (fst (nodes_loop_task1 G xs infected beta gamma rnd [] s)) \<longleftrightarrow>
         xs ! k \<in> set (fst (node_body_task1 G (xs ! k) infected beta gamma rnd []
                       (snd (nodes_loop_task1 G (take k xs) infected beta gamma rnd [] s))))"
proof -
  have "\<And>j. j < length xs \<Longrightarrow>
          xs ! k \<in> set (fst (node_body_task1 G (xs ! j) infected beta gamma rnd []
                       (snd (nodes_loop_task1 G (take j xs) infected beta gamma rnd [] s)))) \<Longrightarrow> j = k"
    using assms by (auto simp: node_body_task1_member nth_eq_iff_index_eq)
  then show ?thesis
    using assms(2) by (subst nodes_loop_task1_set) blast
qed

lemma update_status_task1_nonempty:
  "nodes G \<noteq> [] \<Longrightarrow>
   update_status_task1 G infected beta gamma rnd s =
     Inr ((fst (nodes_loop_task1 G (nodes G) infected beta gamma rnd [] s),
           real (length (fst (nodes_loop_task1 G (nodes G) infected beta gamma rnd [] s))) /
             real (length (nodes G))),
          snd (nodes_loop_task1 G (nodes G) infected beta gamma rnd [] s))"
  by (simp add: update_status_task1_def len_graph_def split: prod.splits)

lemma update_status_task1_empty_graph:
  "nodes G = [] \<Longrightarrow> update_status_task1 G infected beta gamma rnd s = Inl ZeroDivisionError"
  by (simp add: update_status_task1_def len_graph_def)

section \<open>The loops of \<^verbatim>\<open>main.py\<close>\<close>

lemma neighbors_loop_main_acc:
  "neighbors_loop_main nbrs infected beta rnd acc s =
     (acc @ fst (neighbors_loop_main nbrs infected beta rnd [] s),
      snd (neighbors_loop_main nbrs infected beta rnd [] s))"
proof (induction nbrs arbitrary: acc s)
  case Nil
  then show ?case by simp
next
  case (Cons nb rest)
  show ?case
    using Cons.IH [of "acc @ [nb]" "Suc s"] Cons.IH [of "[nb]" "Suc s"]
          Cons.IH [of acc "Suc s"] Cons.IH [of acc s]
    by simp
qed

text \<open>
  The susceptible neighbours, in iteration order, own the draws \<open>s\<close>, \<open>s + 1\<close>, ...; each one
  whose draw is below \<open>beta\<close> is appended.
\<close>

lemma neighbors_loop_main_set:
  "set (fst (neighbors_loop_main nbrs infected beta rnd [] s)) =
     {filter (\<lambda>n. n \<notin> set infected) nbrs ! i | i.
        i < length (filter (\<lambda>n. n \<notin> set infected) nbrs) \<and> rnd (s + i) < beta}"
proof (induction nbrs arbitrary: s)
  case Nil
  then show ?case by simp
next
  case (Cons nb rest)
  let ?sus = "filter (\<lambda>n. n \<notin> set infected) rest"
  show ?case
  proof (cases "nb \<in> set infected")
    case True
    then show ?thesis using Cons.IH [of s] by simp
  next
    case False
    have split: "{(nb # ?sus) ! i | i. i < Suc (length ?sus) \<and> rnd (s + i) < beta} =
                 (if rnd s < beta then {nb} else {}) \<union>
                 {?sus ! i | i. i < length ?sus \<and> rnd (Suc s + i) < beta}"
      (is "?L = ?R")
    proof (rule set_eqI)
      fix y
      have "y \<in> ?L \<longleftrightarrow> (\<exists>i. i < Suc (length ?sus) \<and> rnd (s + i) < beta \<and> y = (nb # ?sus) ! i)"
        by auto
      also have "\<dots> \<longleftrightarrow> (rnd s < beta \<and> y = nb) \<or>
                        (\<exists>i. i < length ?sus \<and> rnd (Suc s + i) < beta \<and> y = ?sus ! i)"
        by (auto simp: less_Suc_eq_0_disj)
      also have "\<dots> \<longleftrightarrow> y \<in> ?R" by auto
      finally show "y \<in> ?L \<longleftrightarrow> y \<in> ?R" .
    qed
    show ?thesis
    proof (cases "rnd s < beta")
      case True
      have "set (fst (neighbors_loop_main (nb # rest) infected beta rnd [] s)) =
            {nb} \<union> set (fst (neighbors_loop_main rest infected beta rnd [] (Suc s)))"
        using False True neighbors_loop_main_acc [of rest infected beta rnd "[nb]" "Suc s"] by simp
      then show ?thesis using False True split Cons.IH [of "Suc s"] by simp
    next
      case nb: False
      then show ?thesis using False split Cons.IH [of "Suc s"] by simp
    qed
  qed
qed

lemma node_body_main_acc:
  "node_body_main G x infected beta gamma rnd acc s =
     (acc @ fst (node_body_main G x infected beta gamma rnd [] s),
      snd (node_body_main G x infected beta gamma rnd [] s))"
  using neighbors_loop_main_acc [of "neighbors G x" infected beta rnd acc "Suc s"]
  by (simp add: node_body_main_def)

lemma nodes_loop_main_acc:
  "nodes_loop_main G xs infected beta gamma rnd acc s =
     (acc @ fst (nodes_loop_main G xs infected beta gamma rnd [] s),
      snd (nodes_loop_main G xs infected beta gamma rnd [] s))"
proof (induction xs arbitrary: acc s)
  case Nil
  then show ?case by simp
next
  case (Cons x xs)
  obtain b s1 where b: "node_body_main G x infected beta gamma rnd [] s = (b, s1)"
    by (cases "node_body_main G x infected beta gamma rnd [] s")
  have acc: "node_body_main G x infected beta gamma rnd acc s = (acc @ b, s1)"
    using node_body_main_acc [of G x infected beta gamma rnd acc s] b by simp
  show ?case
    using Cons.IH [of "acc @ b" s1] Cons.IH [of b s1] by (simp add: b acc)
qed

lemma nodes_loop_main_append:
  "nodes_loop_main G (xs @ ys) infected beta gamma rnd acc s =
     (case nodes_loop_main G xs infected beta gamma rnd acc s of
        (acc', s') \<Rightarrow> nodes_loop_main G ys infected beta gamma rnd acc' s')"
  by (induction xs arbitrary: acc s) (simp_all split: prod.splits)

lemma nodes_loop_main_snoc:
  "fst (nodes_loop_main G (xs @ [x]) infected beta gamma rnd [] s) =
     fst (nodes_loop_main G xs infected beta gamma rnd [] s) @
     fst (node_body_main G x infected beta gamma rnd []
            (snd (nodes_loop_main G xs infected beta gamma rnd [] s)))"
proof -
  obtain a s1 where a: "nodes_loop_main G xs infected beta gamma rnd [] s = (a, s1)"
    by (cases "nodes_loop_main G xs infected beta gamma rnd [] s")
  show ?thesis
    using node_body_main_acc [of G x infected beta gamma rnd a s1]
    by (simp add: nodes_loop_main_append a split: prod.splits)
qed

lemma node_body_main_member:
  "y \<in> set (fst (node_body_main G x infected beta gamma rnd [] s)) \<longleftrightarrow>
     (if x \<in> set infected
      then \<not> rnd s < gamma \<and>
           (\<exists>i < length (filter (\<lambda>n. n \<notin> set infected) (neighbors G x)).
              filter (\<lambda>n. n \<notin> set infected) (neighbors G x) ! i = y \<and> rnd (Suc s + i) < beta)
      else y = x \<and> rnd s < beta)"
proof (cases "x \<in> set infected")
  case True
  show ?thesis
  proof (cases "rnd s < gamma")
    case True
    with \<open>x \<in> set infected\<close> show ?thesis by (simp add: node_body_main_def)
  next
    case False
    have "y \<in> set (fst (node_body_main G x infected beta gamma rnd [] s)) \<longleftrightarrow>
          y \<in> set (fst (neighbors_loop_main (neighbors G x) infected beta rnd [] (Suc s)))"
      using False \<open>x \<in> set infected\<close> by (simp add: node_body_main_def)
    also have "\<dots> \<longleftrightarrow> (\<exists>i < length (filter (\<lambda>n. n \<notin> set infected) (neighbors G x)).
              filter (\<lambda>n. n \<notin> set infected) (neighbors G x) ! i = y \<and> rnd (Suc s + i) < beta)"
      by (subst neighbors_loop_main_set) auto
    finally show ?thesis using False \<open>x \<in> set infected\<close> by simp
  qed
next
  case False
  show ?thesis
  proof (cases "rnd s < beta")
    case True
    with False show ?thesis by (simp add: node_body_main_def)
  next
    case nb: False
    with False show ?thesis by (simp add: node_body_main_def)
  qed
qed

lemma nodes_loop_main_set:
  "set (fst (nodes_loop_main G xs infected beta gamma rnd [] s)) =
     (\<Union>j<length xs. set (fst (node_body_main G (xs ! j) infected beta gamma rnd []
                                 (snd (nodes_loop_main G (take j xs) infected beta gamma rnd [] s)))))"
proof (induction xs rule: rev_induct)
  case Nil
  then show ?case by simp
next
  case (snoc x xs)
  have "(\<Union>j<length xs. set (fst (node_body_main G ((xs @ [x]) ! j) infected beta gamma rnd []
            (snd (nodes_loop_main G (take j (xs @ [x])) infected beta gamma rnd [] s))))) =
        (\<Union>j<length xs. set (fst (node_body_main G (xs ! j) infected beta gamma rnd []
            (snd (nodes_loop_main G (take j xs) infected beta gamma rnd [] s)))))"
    by (auto simp: nth_append)
  then show ?case
    using snoc.IH by (simp add: nodes_loop_main_snoc lessThan_Suc Un_commute)
qed

lemma nodes_loop_main_member:
  assumes "distinct xs" and "k < length xs" and "xs ! k \<notin> set infected"
  shows "xs ! k \<in> set (fst (nodes_loop_main G xs infected beta gamma rnd [] s)) \<longleftrightarrow>
         rnd (snd (nodes_loop_main G (take k xs) infected beta gamma rnd [] s)) < beta \<or>
         (\<exists>j<length xs. xs ! j \<in> set infected \<and>
            \<not> rnd (snd (nodes_loop_main G (take j xs) infected beta gamma rnd [] s)) < gamma \<and>
            (\<exists>i < length (filter (\<lambda>n. n \<notin> set infected) (neighbors G (xs ! j))).
               filter (\<lambda>n. n \<notin> set infected) (neighbors G (xs ! j)) ! i = xs ! k \<and>
               rnd (Suc (snd (nodes_loop_main G (take j xs) infected beta gamma rnd [] s)) + i)
                 < beta))"
  (is "?L \<longleftrightarrow> ?A \<or> ?B")
proof -
  let ?st = "\<lambda>j. snd (nodes_loop_main G (take j xs) infected beta gamma rnd [] s)"
  let ?body = "\<lambda>j. set (fst (node_body_main G (xs ! j) infected beta gamma rnd [] (?st j)))"
  have L: "?L \<longleftrightarrow> (\<exists>j<length xs. xs ! k \<in> ?body j)"
    by (subst nodes_loop_main_set) blast
  have sus: "\<And>j. j < length xs \<Longrightarrow> xs ! j \<notin> set infected \<Longrightarrow>
               (xs ! k \<in> ?body j \<longleftrightarrow> j = k \<and> rnd (?st k) < beta)"
    using assms(1,2) by (auto simp: node_body_main_member nth_eq_iff_index_eq)
  have inf: "\<And>j. j < length xs \<Longrightarrow> xs ! j \<in> set infected \<Longrightarrow>
               (xs ! k \<in> ?body j \<longleftrightarrow>
                  \<not> rnd (?st j) < gamma \<and>
                  (\<exists>i < length (filter (\<lambda>n. n \<notin> set infected) (neighbors G (xs ! j))).
                     filter (\<lambda>n. n \<notin> set infected) (neighbors G (xs ! j)) ! i = xs ! k \<and>
                     rnd (Suc (?st j) + i) < beta))"
    by (simp add: node_body_main_member)
  show ?thesis
  proof
    assume ?L
    then obtain j where j: "j < length xs" "xs ! k \<in> ?body j" using L by blast
    show "?A \<or> ?B"
    proof (cases "xs ! j \<in> set infected")
      case True
      with j inf [of j] have "?B" by blast
      then show ?thesis ..
    next
      case False
      with j sus [of j] have "?A" by blast
      then show ?thesis ..
    qed
  next
    assume "?A \<or> ?B"
    then show ?L
    proof
      assume ?A
      with sus [of k] assms have "xs ! k \<in> ?body k" by blast
      with assms(2) L show ?L by blast
    next
      assume ?B
      then obtain j where "j < length xs" "xs ! j \<in> set infected" "xs ! k \<in> ?body j"
        using inf by blast
      with L show ?L by blast
    qed
  qed
qed

lemma update_status_main_nonempty:
  "nodes G \<noteq> [] \<Longrightarrow>
   update_status_main G infected beta gamma rnd s =
     Inr ((fst (nodes_loop_main G (nodes G) infected beta gamma rnd [] s),
           real (length (fst (nodes_loop_main G (nodes G) infected beta gamma rnd [] s))) /
             real (length (nodes G))),
          snd (nodes_loop_main G (nodes G) infected beta gamma rnd [] s))"
  by (simp add: update_status_main_def len_graph_def split: prod.splits)

lemma update_status_main_empty_graph:
  "nodes G = [] \<Longrightarrow> update_status_main G infected beta gamma rnd s = Inl ZeroDivisionError"
  by (simp add: update_status_main_def len_graph_def)

section \<open>The simulation loop\<close>

lemma simulate_spread_main_trajectory:
  "simulate_spread_main ec G G_type infected beta gamma T rnd s =
     Inr ((proportion_infected, max_eigen, leading_node), s') \<Longrightarrow>
   \<exists>infected'. spread_loop update_status_main G infected beta gamma (nat T) rnd [] s =
     Inr ((proportion_infected, infected'), s')"
  by (auto simp: simulate_spread_main_def split: sum.splits prod.splits)

lemma simulate_spread_task1_trajectory:
  "simulate_spread_task1 ec G infected beta gamma T rnd s =
     Inr ((proportion_infected, max_eigen, leading_node), s') \<Longrightarrow>
   \<exists>infected'. spread_loop update_status_task1 G infected beta gamma (nat T) rnd [] s =
     Inr ((proportion_infected, infected'), s')"
  by (auto simp: simulate_spread_task1_def split: sum.splits prod.splits)

lemma task1_fraction_in_unit_interval:
  assumes "update_status_task1 G infected beta gamma rnd s = Inr ((new, p), s')"
  shows "0 \<le> p \<and> p \<le> 1"
proof -
  from assms have ne: "nodes G \<noteq> []"
    by (auto simp: update_status_task1_def len_graph_def split: prod.splits if_splits)
  have "length (fst (nodes_loop_task1 G (nodes G) infected beta gamma rnd [] s)) \<le> length (nodes G)"
    using nodes_loop_task1_subseq [of G "nodes G" infected beta gamma rnd s]
    by (rule list_emb_length)
  moreover have "0 < length (nodes G)" using ne by simp
  ultimately show ?thesis
    using assms by (auto simp: update_status_task1_nonempty [OF ne])
qed

lemma spread_loop_task1_total:
  assumes "nodes G \<noteq> []" and "\<forall>p\<in>set props. 0 \<le> p \<and> p \<le> 1"
  shows "\<exists>traj infected' s'.
           spread_loop update_status_task1 G infected beta gamma n rnd props s =
             Inr ((traj, infected'), s') \<and>
           length traj = length props + n \<and> (\<forall>p\<in>set traj. 0 \<le> p \<and> p \<le> 1)"
  using assms(2)
proof (induction n arbitrary: infected props s)
  case 0
  then show ?case by simp
next
  case (Suc n)
  obtain new p s1 where u: "update_status_task1 G infected beta gamma rnd s = Inr ((new, p), s1)"
    using update_status_task1_nonempty [OF assms(1), of infected beta gamma rnd s] by blast
  have "0 \<le> p \<and> p \<le> 1" using task1_fraction_in_unit_interval [OF u] .
  with Suc.prems have "\<forall>q\<in>set (props @ [p]). 0 \<le> q \<and> q \<le> 1" by auto
  from Suc.IH [OF this, of new s1] show ?case by (simp add: u)
qed

lemma spread_loop_main_total:
  assumes "nodes G \<noteq> []"
  shows "\<exists>r. spread_loop update_status_main G infected beta gamma n rnd props s = Inr r"
proof (induction n arbitrary: infected props s)
  case 0
  then show ?case by simp
next
  case (Suc n)
  obtain new p s1 where u: "update_status_main G infected beta gamma rnd s = Inr ((new, p), s1)"
    using update_status_main_nonempty [OF assms, of infected beta gamma rnd s] by blast
  from Suc.IH [of new "props @ [p]" s1] show ?case by (simp add: u)
qed

section \<open>C1: an infected node recovers or stays infected\<close>

text \<open>
  In \<^verbatim>\<open>main_task1.py\<close> an infected node of the graph is in the new state exactly when its
  recovery draw is above \<open>gamma\<close>.
\<close>

lemma task1_infected_node:
  assumes "distinct (nodes G)" and "k < length (nodes G)" and "nodes G ! k \<in> set infected"
  shows "\<exists>new p s'. update_status_task1 G infected beta gamma rnd s = Inr ((new, p), s') \<and>
           (nodes G ! k \<in> set new \<longleftrightarrow>
              gamma < rnd (draws_before_task1 G infected beta gamma rnd s k))"
proof -
  from assms(2) have ne: "nodes G \<noteq> []" by auto
  show ?thesis
    using assms
    by (simp add: update_status_task1_nonempty [OF ne] nodes_loop_task1_member
          node_body_task1_member draws_before_task1_def)
qed

text \<open>
  In \<^verbatim>\<open>main.py\<close> no node of the prior state is ever in the new state: the infected branch
  appends susceptible neighbours only, never the node itself.
\<close>

lemma main_never_keeps_infected:
  "set (fst (nodes_loop_main G xs infected beta gamma rnd [] s)) \<inter> set infected = {}"
proof -
  have "\<And>y j. y \<in> set (fst (node_body_main G (xs ! j) infected beta gamma rnd []
                   (snd (nodes_loop_main G (take j xs) infected beta gamma rnd [] s)))) \<Longrightarrow>
              y \<notin> set infected"
  proof -
    fix y j
    let ?s = "snd (nodes_loop_main G (take j xs) infected beta gamma rnd [] s)"
    let ?sus = "filter (\<lambda>n. n \<notin> set infected) (neighbors G (xs ! j))"
    assume y: "y \<in> set (fst (node_body_main G (xs ! j) infected beta gamma rnd [] ?s))"
    show "y \<notin> set infected"
    proof (cases "xs ! j \<in> set infected")
      case True
      with y obtain i where "i < length ?sus" and "?sus ! i = y"
        by (auto simp: node_body_main_member)
      then have "y \<in> set ?sus" by (metis nth_mem)
      then show ?thesis by simp
    next
      case False
      with y show ?thesis by (simp add: node_body_main_member)
    qed
  qed
  then show ?thesis by (subst nodes_loop_main_set) blast
qed

text \<open>
  C1. The claim: a node infected at step t-1 is absent from the new state when its recovery
  trial succeeds, and present otherwise. \<^verbatim>\<open>update_status\<close> of \<^verbatim>\<open>main.py\<close> on the graph with
  the single node 0, with node 0 infected, \<open>beta = gamma = 1/2\<close> and the recovery draw
  \<open>3/4\<close>: the recovery trial \<open>3/4 < 1/2\<close> fails, and the new state is empty all the same.
\<close>

theorem main_drops_unrecovered_node:
  "update_status_main lone_node [0] (1/2) (1/2) (constant_rng (3/4)) 0 = Inr (([], 0), 1)"
  by (simp add: update_status_main_def lone_node_def constant_rng_def len_graph_def
        node_body_main_def)

section \<open>C2: infection of a susceptible node\<close>

text \<open>
  C2, as stated, fails on \<^verbatim>\<open>main.py\<close>: on the graph with the single node 0 and no edge, with
  nobody infected, node 0 has no infected neighbour and is infected by its own draw
  \<open>1/4 < 1/2\<close>.
\<close>

theorem main_infects_isolated_susceptible_node:
  "0 \<notin> set ([] :: nat list) \<and> neighbors lone_node 0 = [] \<and>
   update_status_main lone_node [] (1/2) (1/2) (constant_rng (1/4)) 0 = Inr (([0], 1), 1)"
  by (simp add: update_status_main_def lone_node_def constant_rng_def len_graph_def
        node_body_main_def)

text \<open>
  C2, amended. Let the nodes of the graph be distinct and the node at position \<open>k\<close> be
  susceptible. In \<^verbatim>\<open>main_task1.py\<close> it is in the new state if and only if one of the draws
  of its infected neighbours is below \<open>beta\<close>; with no infected neighbour there is no such
  draw. In \<^verbatim>\<open>main.py\<close> it is in the new state if and only if its own draw is below \<open>beta\<close>, or
  some infected node that did not recover has it among its susceptible neighbours with a
  draw below \<open>beta\<close>.
\<close>

theorem susceptible_node_infection:
  assumes "distinct (nodes G)" and "k < length (nodes G)" and "nodes G ! k \<notin> set infected"
  shows "(\<exists>new p s'. update_status_task1 G infected beta gamma rnd s = Inr ((new, p), s') \<and>
            (nodes G ! k \<in> set new \<longleftrightarrow>
               (\<exists>i < length (filter (\<lambda>n. n \<in> set infected) (neighbors G (nodes G ! k))).
                  rnd (draws_before_task1 G infected beta gamma rnd s k + i) < beta))) \<and>
         (\<exists>new p s'. update_status_main G infected beta gamma rnd s = Inr ((new, p), s') \<and>
            (nodes G ! k \<in> set new \<longleftrightarrow>
               rnd (draws_before_main G infected beta gamma rnd s k) < beta \<or>
               (\<exists>j<length (nodes G). nodes G ! j \<in> set infected \<and>
                  \<not> rnd (draws_before_main G infected beta gamma rnd s j) < gamma \<and>
                  (\<exists>i < length (filter (\<lambda>n. n \<notin> set infected) (neighbors G (nodes G ! j))).
                     filter (\<lambda>n. n \<notin> set infected) (neighbors G (nodes G ! j)) ! i = nodes G ! k \<and>
                     rnd (Suc (draws_before_main G infected beta gamma rnd s j) + i) < beta))))"
proof -
  from assms(2) have ne: "nodes G \<noteq> []" by auto
  have t1: "nodes G ! k \<in> set (fst (nodes_loop_task1 G (nodes G) infected beta gamma rnd [] s)) \<longleftrightarrow>
            (\<exists>i < length (filter (\<lambda>n. n \<in> set infected) (neighbors G (nodes G ! k))).
                  rnd (draws_before_task1 G infected beta gamma rnd s k + i) < beta)"
    using assms
    by (simp add: nodes_loop_task1_member node_body_task1_member draws_before_task1_def)
  have m: "nodes G ! k \<in> set (fst (nodes_loop_main G (nodes G) infected beta gamma rnd [] s)) \<longleftrightarrow>
               rnd (draws_before_main G infected beta gamma rnd s k) < beta \<or>
               (\<exists>j<length (nodes G). nodes G ! j \<in> set infected \<and>
                  \<not> rnd (draws_before_main G infected beta gamma rnd s j) < gamma \<and>
                  (\<exists>i < length (filter (\<lambda>n. n \<notin> set infected) (neighbors G (nodes G ! j))).
                     filter (\<lambda>n. n \<notin> set infected) (neighbors G (nodes G ! j)) ! i = nodes G ! k \<and>
                     rnd (Suc (draws_before_main G infected beta gamma rnd s j) + i) < beta))"
    unfolding draws_before_main_def by (rule nodes_loop_main_member [OF assms])
  show ?thesis
    using t1 m
    by (simp add: update_status_task1_nonempty [OF ne] update_status_main_nonempty [OF ne])
qed

text \<open>The amended C2 at the triangle, node 0 infected, for the susceptible node 1.\<close>

theorem susceptible_node_infection_witness:
  "distinct (nodes triangle) \<and> 1 < length (nodes triangle) \<and> nodes triangle ! 1 \<notin> set [0] \<and>
   (\<exists>new p s'. update_status_task1 triangle [0] (1/2) (1/2) (first_then (3/4) (1/4)) 0 =
        Inr ((new, p), s') \<and>
      (nodes triangle ! 1 \<in> set new \<longleftrightarrow>
         (\<exists>i < length (filter (\<lambda>n. n \<in> set [0]) (neighbors triangle (nodes triangle ! 1))).
            first_then (3/4) (1/4)
              (draws_before_task1 triangle [0] (1/2) (1/2) (first_then (3/4) (1/4)) 0 1 + i)
              < 1/2)))"
proof -
  have d: "distinct (nodes triangle)" by (simp add: triangle_def)
  have k: "1 < length (nodes triangle)" by (simp add: triangle_def)
  have n: "nodes triangle ! 1 \<notin> set [0]" by (simp add: triangle_def)
  show ?thesis
    using d k n
      susceptible_node_infection [OF d k n, of "1/2" "1/2" "first_then (3/4) (1/4)" 0]
    by blast
qed

section \<open>C3: the threshold comparison\<close>

text \<open>
  \<^verbatim>\<open>check_threshold\<close> of \<^verbatim>\<open>main.py\<close> reports an epidemic exactly when \<open>beta / gamma\<close> exceeds
  \<open>1 / max_eigen\<close>, and no epidemic at the boundary.
\<close>

lemma check_threshold_main_verdict:
  assumes "0 < gamma" and "0 < max_eigen"
  shows "(check_threshold_main beta gamma max_eigen = Inr ''Epidemic occurs'' \<longleftrightarrow>
            beta / gamma > 1 / max_eigen) \<and>
         (check_threshold_main beta gamma max_eigen = Inr ''No epidemic occurs'' \<longleftrightarrow>
            beta / gamma \<le> 1 / max_eigen)"
  using assms by (simp add: check_threshold_main_def Let_def not_less)

text \<open>\<^verbatim>\<open>check_threshold\<close> of \<^verbatim>\<open>main_task1.py\<close> compares \<open>beta / gamma\<close> with \<open>max_eigen\<close> itself.\<close>

lemma check_threshold_task1_verdict:
  assumes "0 < gamma" and "0 < max_eigen"
  shows "(check_threshold_task1 beta gamma max_eigen = Inr ''Epidemic occurs'' \<longleftrightarrow>
            beta / gamma > max_eigen) \<and>
         (check_threshold_task1 beta gamma max_eigen = Inr ''No epidemic occurs'' \<longleftrightarrow>
            beta / gamma \<le> max_eigen)"
  using assms by (simp add: check_threshold_task1_def Let_def not_less)

text \<open>
  C3. The claim: for positive \<open>gamma\<close> and \<open>max_eigen\<close>, \<^verbatim>\<open>check_threshold\<close> reports an
  epidemic if and only if \<open>beta / gamma > 1 / max_eigen\<close>. \<^verbatim>\<open>check_threshold\<close> of
  \<^verbatim>\<open>main_task1.py\<close> at \<open>beta = 1\<close>, \<open>gamma = 1\<close>, \<open>max_eigen = 2\<close>: the ratio 1 exceeds the
  threshold 1/2, and the verdict is that no epidemic occurs.
\<close>

theorem task1_threshold_compares_with_max_eigen:
  "(1::real) / 1 > 1 / 2 \<and> check_threshold_task1 1 1 2 = Inr ''No epidemic occurs''"
  by (simp add: check_threshold_task1_def)

section \<open>C4: the infected fraction\<close>

text \<open>
  C4. The claim: every entry of the trajectory lies between 0 and 1. One step of the
  simulation loop of \<^verbatim>\<open>main.py\<close> on the triangle with node 0 infected, \<open>beta = gamma = 1/2\<close>,
  recovery draw \<open>3/4\<close> and every later draw \<open>1/4\<close>: node 0 infects 1 and 2, then 1 and 2 are
  appended again by their own draws, and the recorded fraction is 4/3.
\<close>

theorem main_fraction_exceeds_one:
  "spread_loop update_status_main triangle [0] (1/2) (1/2) 1 (first_then (3/4) (1/4)) [] 0 =
     Inr (([4/3], [1, 2, 1, 2]), 5) \<and> (4/3 :: real) > 1"
  by (simp add: update_status_main_def triangle_def first_then_def len_graph_def
        node_body_main_def)

section \<open>C5: no node twice in the new state\<close>

text \<open>
  In \<^verbatim>\<open>main_task1.py\<close> the new state of a graph with distinct nodes has no duplicates, holds
  nodes of the graph only, and is no longer than the node list.
\<close>

lemma task1_no_duplicates:
  assumes "distinct (nodes G)"
      and "update_status_task1 G infected beta gamma rnd s = Inr ((new, p), s')"
  shows "distinct new \<and> set new \<subseteq> set (nodes G) \<and> length new \<le> length (nodes G)"
proof -
  from assms(2) have ne: "nodes G \<noteq> []"
    by (auto simp: update_status_task1_def len_graph_def split: prod.splits if_splits)
  have new: "new = fst (nodes_loop_task1 G (nodes G) infected beta gamma rnd [] s)"
    using assms(2) by (simp add: update_status_task1_nonempty [OF ne])
  have sub: "subseq new (nodes G)" unfolding new by (rule nodes_loop_task1_subseq)
  from sub obtain N where N: "new = nths (nodes G) N"
    by (auto simp: subseq_conv_nths)
  have "distinct new" using assms(1) by (simp add: N)
  moreover have "set new \<subseteq> set (nodes G)" using N by (auto dest: in_set_nthsD)
  moreover have "length new \<le> length (nodes G)" using sub by (rule list_emb_length)
  ultimately show ?thesis by blast
qed

text \<open>
  C5. The claim: the new state contains no node more than once, so it is no longer than
  the node list. \<^verbatim>\<open>update_status\<close> of \<^verbatim>\<open>main.py\<close> on the triangle with node 0 infected returns
  the four-element list 1, 2, 1, 2 for a graph of three nodes.
\<close>

theorem main_counts_node_twice:
  "update_status_main triangle [0] (1/2) (1/2) (first_then (3/4) (1/4)) 0 =
     Inr (([1, 2, 1, 2], 4/3), 5) \<and>
   \<not> distinct [1, 2, 1, 2 :: nat] \<and> length [1, 2, 1, 2 :: nat] > length (nodes triangle)"
  by (simp add: update_status_main_def triangle_def first_then_def len_graph_def
        node_body_main_def)

section \<open>C6: the empty state is absorbing\<close>

lemma neighbors_loop_task1_none_infected:
  "neighbors_loop_task1 nbrs [] beta rnd s = (False, s)"
  by (induction nbrs) simp_all

lemma nodes_loop_task1_none_infected:
  "nodes_loop_task1 G xs [] beta gamma rnd acc s = (acc, s)"
  by (induction xs) (simp_all add: node_body_task1_def neighbors_loop_task1_none_infected)

lemma update_status_task1_none_infected:
  "nodes G \<noteq> [] \<Longrightarrow> update_status_task1 G [] beta gamma rnd s = Inr (([], 0), s)"
  by (simp add: update_status_task1_def nodes_loop_task1_none_infected len_graph_def)

lemma spread_loop_task1_none_infected:
  "nodes G \<noteq> [] \<Longrightarrow>
   spread_loop update_status_task1 G [] beta gamma n rnd props s =
     Inr ((props @ replicate n 0, []), s)"
proof (induction n arbitrary: props)
  case 0
  then show ?case by simp
next
  case (Suc n)
  then show ?case
    by (simp add: update_status_task1_none_infected replicate_app_Cons_same)
qed

text \<open>
  C6. Where infection needs an infected neighbour (\<^verbatim>\<open>main_task1.py\<close>), on a graph with at
  least one node: from the empty state \<^verbatim>\<open>update_status\<close> returns the empty state with
  fraction 0 and draws nothing, and the simulation loop started from the empty state
  records 0 at every step and ends in the empty state. This holds for every \<open>gamma\<close>.
\<close>

theorem empty_state_is_absorbing_task1:
  assumes "nodes G \<noteq> []"
  shows "update_status_task1 G [] beta gamma rnd s = Inr (([], 0), s) \<and>
         spread_loop update_status_task1 G [] beta gamma n rnd props s =
           Inr ((props @ replicate n 0, []), s)"
  using assms
  by (simp add: update_status_task1_none_infected spread_loop_task1_none_infected)

text \<open>C6 on the triangle, three steps.\<close>

theorem empty_state_is_absorbing_task1_witness:
  "nodes triangle \<noteq> [] \<and>
   update_status_task1 triangle [] (1/2) (1/2) (constant_rng (1/4)) 0 = Inr (([], 0), 0) \<and>
   spread_loop update_status_task1 triangle [] (1/2) (1/2) 3 (constant_rng (1/4)) [] 0 =
     Inr (([0, 0, 0], []), 0)"
proof -
  have ne: "nodes triangle \<noteq> []" by (simp add: triangle_def)
  have r: "replicate 3 (0::real) = [0, 0, 0]" by (simp add: numeral_3_eq_3)
  show ?thesis
    using ne empty_state_is_absorbing_task1 [OF ne, of "1/2" "1/2" "constant_rng (1/4)" 0 3 "[]"]
    by (simp add: r)
qed

section \<open>C7: parameters are not validated\<close>

text \<open>
  C7, as stated, fails: with \<open>gamma = 0\<close> and \<open>beta = 1\<close> both variants of \<^verbatim>\<open>update_status\<close>
  run on the triangle and return a new state, and both variants of \<^verbatim>\<open>check_threshold\<close> then
  fail with \<^verbatim>\<open>ZeroDivisionError\<close>.
\<close>

theorem gamma_zero_runs_then_divides_by_zero:
  "update_status_main triangle [0] 1 0 (constant_rng (1/2)) 0 = Inr (([1, 2, 1, 2], 4/3), 5) \<and>
   update_status_task1 triangle [0] 1 0 (constant_rng (1/2)) 0 = Inr (([0, 1, 2], 1), 3) \<and>
   check_threshold_main 1 0 2 = Inl ZeroDivisionError \<and>
   check_threshold_task1 1 0 2 = Inl ZeroDivisionError"
  by (simp add: update_status_main_def update_status_task1_def triangle_def constant_rng_def
        len_graph_def node_body_main_def node_body_task1_def check_threshold_main_def
        check_threshold_task1_def)

text \<open>
  C7, amended. No parameter is checked: on a graph with at least one node, for any \<open>beta\<close>,
  \<open>gamma\<close> and \<open>T\<close> whatever, both variants of \<^verbatim>\<open>update_status\<close> and of the simulation loop
  return a result, and \<^verbatim>\<open>check_threshold\<close> with \<open>gamma = 0\<close> raises \<^verbatim>\<open>ZeroDivisionError\<close>.
\<close>

theorem no_parameter_validation:
  assumes "nodes G \<noteq> []"
  shows "(\<exists>r. update_status_main G infected beta gamma rnd s = Inr r) \<and>
         (\<exists>r. update_status_task1 G infected beta gamma rnd s = Inr r) \<and>
         (\<exists>r. spread_loop update_status_main G infected beta gamma (nat T) rnd [] s = Inr r) \<and>
         (\<exists>r. spread_loop update_status_task1 G infected beta gamma (nat T) rnd [] s = Inr r) \<and>
         check_threshold_main beta 0 max_eigen = Inl ZeroDivisionError \<and>
         check_threshold_task1 beta 0 max_eigen = Inl ZeroDivisionError"
proof -
  have "\<exists>r. spread_loop update_status_task1 G infected beta gamma (nat T) rnd [] s = Inr r"
    using spread_loop_task1_total [OF assms, of "[]" infected beta gamma "nat T" rnd s] by auto
  then show ?thesis
    using spread_loop_main_total [OF assms, of infected beta gamma "nat T" rnd "[]" s]
    by (simp add: update_status_main_nonempty [OF assms] update_status_task1_nonempty [OF assms]
          check_threshold_main_def check_threshold_task1_def)
qed

text \<open>The amended C7 at \<open>beta = 7\<close>, \<open>gamma = 0\<close> and \<open>T = -1\<close>.\<close>

theorem no_parameter_validation_witness:
  "nodes triangle \<noteq> [] \<and>
   (\<exists>r. update_status_main triangle [0] 7 0 (constant_rng (1/2)) 0 = Inr r) \<and>
   (\<exists>r. update_status_task1 triangle [0] 7 0 (constant_rng (1/2)) 0 = Inr r) \<and>
   (\<exists>r. spread_loop update_status_main triangle [0] 7 0 (nat (- 1)) (constant_rng (1/2)) [] 0 = Inr r) \<and>
   (\<exists>r. spread_loop update_status_task1 triangle [0] 7 0 (nat (- 1)) (constant_rng (1/2)) [] 0 = Inr r) \<and>
   check_threshold_main 7 0 2 = Inl ZeroDivisionError \<and>
   check_threshold_task1 7 0 2 = Inl ZeroDivisionError"
proof -
  have ne: "nodes triangle \<noteq> []" by (simp add: triangle_def)
  show ?thesis
    using ne no_parameter_validation [OF ne, of "[0]" 7 0 "constant_rng (1/2)" 0 "- 1" 2]
    by blast
qed

section \<open>C8: the initial state at \<open>p0 = 0\<close> and \<open>p0 = 1\<close>\<close>

lemma initial_loop_zero:
  "\<forall>i. 0 \<le> rnd i \<Longrightarrow> initial_loop xs 0 rnd acc s = (acc, s + length xs)"
  by (induction xs arbitrary: acc s) (simp_all add: not_less)

lemma initial_loop_one:
  "\<forall>i. rnd i < 1 \<Longrightarrow> initial_loop xs 1 rnd acc s = (acc @ xs, s + length xs)"
  by (induction xs arbitrary: acc s) simp_all

text \<open>
  C8. For a generator with values in the half-open unit interval, \<^verbatim>\<open>set_initial_infected\<close>
  returns the empty list for \<open>p0 = 0\<close> and the whole node list for \<open>p0 = 1\<close>.
\<close>

theorem initial_infected_extremes:
  assumes "unit_interval rnd"
  shows "fst (set_initial_infected G 0 rnd s) = [] \<and>
         fst (set_initial_infected G 1 rnd s) = nodes G"
  using assms
  by (simp add: set_initial_infected_def initial_loop_zero initial_loop_one unit_interval_def)

text \<open>C8 on the triangle with every draw \<open>1/2\<close>.\<close>

theorem initial_infected_extremes_witness:
  "unit_interval (constant_rng (1/2)) \<and>
   fst (set_initial_infected triangle 0 (constant_rng (1/2)) 0) = [] \<and>
   fst (set_initial_infected triangle 1 (constant_rng (1/2)) 0) = [0, 1, 2]"
proof -
  have u: "unit_interval (constant_rng (1/2))"
    by (simp add: unit_interval_def constant_rng_def)
  show ?thesis
    using u initial_infected_extremes [OF u, of triangle 0]
    by (simp add: triangle_def)
qed

section \<open>C9: the two variants differ\<close>

text \<open>
  C9. On the graph with the single node 0, nobody infected, \<open>beta = gamma = 1/2\<close> and every
  draw \<open>1/4\<close>, \<^verbatim>\<open>update_status\<close> of \<^verbatim>\<open>main.py\<close> infects node 0 by its spontaneous branch and
  \<^verbatim>\<open>update_status\<close> of \<^verbatim>\<open>main_task1.py\<close> returns the empty state.
\<close>

theorem variants_differ:
  "update_status_main lone_node [] (1/2) (1/2) (constant_rng (1/4)) 0 = Inr (([0], 1), 1) \<and>
   update_status_task1 lone_node [] (1/2) (1/2) (constant_rng (1/4)) 0 = Inr (([], 0), 0) \<and>
   update_status_main lone_node [] (1/2) (1/2) (constant_rng (1/4)) 0 \<noteq>
   update_status_task1 lone_node [] (1/2) (1/2) (constant_rng (1/4)) 0"
  by (simp add: update_status_main_def update_status_task1_def lone_node_def constant_rng_def
        len_graph_def node_body_main_def node_body_task1_def)

section \<open>C10: no transmission at \<open>beta = 0\<close>\<close>

lemma nodes_loop_task1_beta_zero:
  assumes "\<forall>i. 0 \<le> rnd i"
  shows "set (fst (nodes_loop_task1 G xs infected 0 gamma rnd [] s)) \<subseteq> set infected"
proof
  fix y
  assume "y \<in> set (fst (nodes_loop_task1 G xs infected 0 gamma rnd [] s))"
  then obtain j where "y \<in> set (fst (node_body_task1 G (xs ! j) infected 0 gamma rnd []
      (snd (nodes_loop_task1 G (take j xs) infected 0 gamma rnd [] s))))"
    by (subst (asm) nodes_loop_task1_set) blast
  moreover have "\<And>i. \<not> rnd i < 0" using assms by (simp add: not_less)
  ultimately show "y \<in> set infected"
    by (simp add: node_body_task1_member split: if_splits)
qed

lemma nodes_loop_main_beta_zero:
  assumes "\<forall>i. 0 \<le> rnd i"
  shows "fst (nodes_loop_main G xs infected 0 gamma rnd [] s) = []"
proof -
  have nn: "\<And>i. \<not> rnd i < 0" using assms by (simp add: not_less)
  have "\<And>y t x. y \<notin> set (fst (node_body_main G x infected 0 gamma rnd [] t))"
    by (simp add: node_body_main_member nn)
  then have "set (fst (nodes_loop_main G xs infected 0 gamma rnd [] s)) = {}"
    by (subst nodes_loop_main_set) blast
  then show ?thesis by simp
qed

text \<open>
  C10. For a generator with values in the half-open unit interval and a graph with at least
  one node, with \<open>beta = 0\<close> both variants of \<^verbatim>\<open>update_status\<close> return a new state whose
  nodes all belong to the prior state.
\<close>

theorem no_transmission_only_shrinks:
  assumes "unit_interval rnd" and "nodes G \<noteq> []"
  shows "(\<exists>new p s'. update_status_task1 G infected 0 gamma rnd s = Inr ((new, p), s') \<and>
            set new \<subseteq> set infected) \<and>
         (\<exists>new p s'. update_status_main G infected 0 gamma rnd s = Inr ((new, p), s') \<and>
            set new \<subseteq> set infected)"
proof -
  from assms(1) have nn: "\<forall>i. 0 \<le> rnd i" by (simp add: unit_interval_def)
  show ?thesis
    using nodes_loop_task1_beta_zero [OF nn, of G "nodes G" infected gamma s]
          nodes_loop_main_beta_zero [OF nn, of G "nodes G" infected gamma s]
    by (simp add: update_status_task1_nonempty [OF assms(2)]
          update_status_main_nonempty [OF assms(2)])
qed

text \<open>C10 on the triangle with the nodes 0 and 1 infected.\<close>

theorem no_transmission_only_shrinks_witness:
  "unit_interval (constant_rng (3/4)) \<and> nodes triangle \<noteq> [] \<and>
   (\<exists>new p s'. update_status_task1 triangle [0, 1] 0 (1/2) (constant_rng (3/4)) 0 =
        Inr ((new, p), s') \<and> set new \<subseteq> set [0, 1]) \<and>
   (\<exists>new p s'. update_status_main triangle [0, 1] 0 (1/2) (constant_rng (3/4)) 0 =
        Inr ((new, p), s') \<and> set new \<subseteq> set [0, 1])"
proof -
  have u: "unit_interval (constant_rng (3/4))"
    by (simp add: unit_interval_def constant_rng_def)
  have ne: "nodes triangle \<noteq> []" by (simp add: triangle_def)
  show ?thesis
    using u ne no_transmission_only_shrinks [OF u ne, of "[0, 1]" "1/2" 0]
    by blast
qed

end
